theory Spec2Isabelle
  imports Complex_Main "HOL-Library.Word"
begin

unbundle bit_operations_syntax

section \<open>GeoEncode: a six-byte encoding of latitude-longitude coordinates\<close>

text \<open>
  A shallow embedding of \<^verbatim>\<open>geoencode.cc\<close> (namespace \<^verbatim>\<open>GeoEncode\<close>).

  Modelling conventions.
  \<^item> A C++ \<^verbatim>\<open>double\<close> is a \<open>real\<close>: arithmetic on doubles is taken to be exact.
    The integer side of the codec (quantised angles, bit packing, bytes) is modelled as
    the code computes it. A general fact below about a rounded or a decoded value is
    therefore a fact about exact arithmetic: the program rounds each sum and product to
    a double first, and can differ where the exact value is within a rounding error of a
    tie, of a bound, or of the range of \<^verbatim>\<open>int\<close>.
  \<^item> A C++ \<^verbatim>\<open>int\<close> is an \<open>int\<close>; \<^verbatim>\<open>/\<close> and \<^verbatim>\<open>%\<close> truncate towards zero
    (\<open>c_div\<close>, \<open>c_mod\<close>). The conversion of an \<^verbatim>\<open>int\<close> to \<^verbatim>\<open>unsigned\<close> is
    reduction modulo \<open>2 ^ 32\<close>; the conversion to \<^verbatim>\<open>char\<close> keeps the low eight bits.
  \<^item> A \<^verbatim>\<open>std::string\<close> is a list of bytes; \<^verbatim>\<open>unsigned\<close> values read from it
    are natural numbers (they stay below \<open>2 ^ 16\<close>).
  \<^item> An out-parameter is an argument whose new value is returned beside the result.
\<close>

type_synonym double = real
type_synonym byte = "8 word"

subsection \<open>C arithmetic\<close>

text \<open>\<^verbatim>\<open>round()\<close> followed by the conversion to \<^verbatim>\<open>int\<close>: to nearest, halves away
  from zero.\<close>

definition c_round :: "double \<Rightarrow> int" where
  "c_round x = (if 0 \<le> x then \<lfloor>x + 1 / 2\<rfloor> else \<lceil>x - 1 / 2\<rceil>)"

text \<open>\<^verbatim>\<open>fmod(x, y)\<close>: the remainder of the division truncated towards zero, so it has
  the sign of \<open>x\<close>.\<close>

definition c_trunc :: "double \<Rightarrow> int" where
  "c_trunc x = (if 0 \<le> x then \<lfloor>x\<rfloor> else \<lceil>x\<rceil>)"

definition fmod :: "double \<Rightarrow> double \<Rightarrow> double" where
  "fmod x y = x - y * of_int (c_trunc (x / y))"

definition c_div :: "int \<Rightarrow> int \<Rightarrow> int" where
  "c_div a b = sgn a * sgn b * (\<bar>a\<bar> div \<bar>b\<bar>)"

definition c_mod :: "int \<Rightarrow> int \<Rightarrow> int" where
  "c_mod a b = a - c_div a b * b"

subsection \<open>Angles split into degrees, minutes and seconds\<close>

record DegreesMinutesSeconds =
  degrees :: int
  minutes :: int
  seconds :: int
  sec16ths :: int

text \<open>The constructor \<^verbatim>\<open>DegreesMinutesSeconds(int angle_16th_secs)\<close>.\<close>

definition DegreesMinutesSeconds_init :: "int \<Rightarrow> DegreesMinutesSeconds" where
  "DegreesMinutesSeconds_init angle_16th_secs =
     (let d = c_div angle_16th_secs (3600 * 16);
          angle_16th_secs = c_mod angle_16th_secs (3600 * 16);
          m = c_div angle_16th_secs (60 * 16);
          angle_16th_secs = c_mod angle_16th_secs (60 * 16)
      in \<lparr>degrees = d, minutes = m,
          seconds = c_div angle_16th_secs 16, sec16ths = c_mod angle_16th_secs 16\<rparr>)"

subsection \<open>The encoder\<close>

text \<open>The tail of \<^verbatim>\<open>encode\<close>, the same text in both versions of the function: the
  string is resized by six bytes, which are then written one by one.\<close>

definition encode_bytes ::
  "DegreesMinutesSeconds \<Rightarrow> DegreesMinutesSeconds \<Rightarrow> byte list \<Rightarrow> byte list" where
  "encode_bytes lat_dms lon_dms result =
     (let old_len = length result;
          result = result @ replicate 6 0;
          dd = (degrees lat_dms + degrees lon_dms * 181) mod 2 ^ 32;
          result = result[old_len := word_of_int (drop_bit 8 dd)];
          result = result[old_len + 1 := word_of_int (dd AND 0xff)];
          result = result[old_len + 2 := word_of_int
                     (push_bit 4 (c_div (minutes lat_dms) 4) OR c_div (minutes lon_dms) 4)];
          result = result[old_len + 3 := word_of_int
                     (push_bit 6 (c_mod (minutes lat_dms) 4) OR
                      push_bit 4 (c_mod (minutes lon_dms) 4) OR
                      push_bit 2 (c_div (seconds lat_dms) 15) OR
                      c_div (seconds lon_dms) 15)];
          result = result[old_len + 4 := word_of_int
                     (push_bit 4 (c_mod (seconds lat_dms) 15) OR c_mod (seconds lon_dms) 15)];
          result = result[old_len + 5 := word_of_int
                     (push_bit 4 (sec16ths lat_dms) OR sec16ths lon_dms)]
      in result)"

text \<open>The earlier \<^verbatim>\<open>GeoEncode::encode\<close>: the longitude is wrapped only when the
  quantised latitude is not a pole.\<close>

definition encode_old :: "double \<Rightarrow> double \<Rightarrow> byte list \<Rightarrow> bool \<times> byte list" where
  "encode_old lat lon result =
     (if lat < - 90 \<or> lat > 90 then (False, result)
      else
        let lat_int = c_round ((lat + 90) * 57600);
            lon_int =
              (if lat_int = 0 \<or> lat_int = 57600 * 180 then 0
               else
                 let lon = fmod lon 360;
                     lon = (if lon < 0 then lon + 360 else lon);
                     lon_int = c_round (lon * 57600)
                 in if lon_int = 57600 * 360 then 0 else lon_int)
        in (True, encode_bytes (DegreesMinutesSeconds_init lat_int)
                    (DegreesMinutesSeconds_init lon_int) result))"

text \<open>The later \<^verbatim>\<open>GeoEncode::encode\<close>: the longitude is wrapped first.\<close>

definition encode :: "double \<Rightarrow> double \<Rightarrow> byte list \<Rightarrow> bool \<times> byte list" where
  "encode lat lon result =
     (if lat < - 90 \<or> lat > 90 then (False, result)
      else
        let lon = fmod lon 360;
            lon = (if lon < 0 then lon + 360 else lon);
            lat_16ths = c_round ((lat + 90) * 57600);
            lon_16ths =
              (if lat_16ths = 0 \<or> lat_16ths = 57600 * 180 then 0
               else
                 let lon_16ths = c_round (lon * 57600)
                 in if lon_16ths = 57600 * 360 then 0 else lon_16ths)
        in (True, encode_bytes (DegreesMinutesSeconds_init lat_16ths)
                    (DegreesMinutesSeconds_init lon_16ths) result))"

subsection \<open>The decoder\<close>

record LatLongCoord =
  lat :: double
  lon :: double

text \<open>\<^verbatim>\<open>GeoEncode::decode(const char * value, size_t len)\<close>, with the buffer and its
  length given as one list. The source requires \<open>len \<ge> 2\<close> and does not check it.\<close>

definition decode :: "byte list \<Rightarrow> LatLongCoord" where
  "decode ptr =
     (let len = length ptr;
          tmp = push_bit 8 (unat (ptr ! 0) AND 0xff) OR (unat (ptr ! 1) AND 0xff);
          result = \<lparr>lat = real (tmp mod 181), lon = real (tmp div 181)\<rparr>;
          result =
            (if len > 2 then
               let tmp = unat (ptr ! 2);
                   lat_m = real (drop_bit 4 tmp * 4);
                   lon_m = real ((tmp AND 0xf) * 4);
                   (lat_m, lon_m) =
                     (if len > 3 then
                        let tmp = unat (ptr ! 3);
                            lat_m = lat_m + real (drop_bit 6 tmp AND 3);
                            lon_m = lon_m + real (drop_bit 4 tmp AND 3);
                            lat_s = real ((drop_bit 2 tmp AND 3) * 15);
                            lon_s = real ((tmp AND 3) * 15);
                            (lat_s, lon_s) =
                              (if len > 4 then
                                 let tmp = unat (ptr ! 4);
                                     lat_s = lat_s + real (drop_bit 4 tmp AND 0xf);
                                     lon_s = lon_s + real (tmp AND 0xf)
                                 in if len > 5 then
                                      let tmp = unat (ptr ! 5)
                                      in (lat_s + real (drop_bit 4 tmp) / 16,
                                          lon_s + real (tmp AND 0xf) / 16)
                                    else (lat_s, lon_s)
                               else (lat_s, lon_s))
                        in (lat_m + lat_s / 60, lon_m + lon_s / 60)
                      else (lat_m, lon_m))
               in result\<lparr>lat := lat result + lat_m / 60, lon := lon result + lon_m / 60\<rparr>
             else result)
      in result\<lparr>lat := lat result - 90\<rparr>)"

subsection \<open>The decoder with a bounding box\<close>

record DecoderWithBoundingBox =
  lon1 :: double
  lon2 :: double
  min_lat :: double
  max_lat :: double
  start1 :: byte
  start2 :: byte
  include_poles :: bool
  discontinuous_longitude_range :: bool

definition calc_latlon_16ths :: "double \<Rightarrow> double \<Rightarrow> int \<times> int" where
  "calc_latlon_16ths la lo =
     (let lat_16ths = c_round ((la + 90) * 57600);
          lon_16ths = c_round (lo * 57600)
      in (lat_16ths, if lon_16ths = 57600 * 360 then 0 else lon_16ths))"

text \<open>The constructor \<^verbatim>\<open>DecoderWithBoundingBox(lat1, lon1_, lat2, lon2_)\<close>.\<close>

definition DecoderWithBoundingBox_init ::
  "double \<Rightarrow> double \<Rightarrow> double \<Rightarrow> double \<Rightarrow> DecoderWithBoundingBox" where
  "DecoderWithBoundingBox_init lat1 lon1' lat2 lon2' =
     (let lon1 = fmod lon1' 360;
          lon1 = (if lon1 < 0 then lon1 + 360 else lon1);
          lon2 = fmod lon2' 360;
          lon2 = (if lon2 < 0 then lon2 + 360 else lon2);
          include_poles = False;
          (lat_16ths, lon_16ths) = calc_latlon_16ths lat1 lon1;
          include_poles = (if lat_16ths = 0 \<or> lat_16ths = 57600 * 180 then True
                           else include_poles);
          dd = (c_div lat_16ths (3600 * 16) + c_div lon_16ths (3600 * 16) * 181) mod 2 ^ 32;
          start1 = word_of_int (drop_bit 8 dd);
          (lat_16ths, lon_16ths) = calc_latlon_16ths lat2 lon2;
          include_poles = (if lat_16ths = 0 \<or> lat_16ths = 57600 * 180 then True
                           else include_poles);
          dd = (c_div lat_16ths (3600 * 16) + c_div lon_16ths (3600 * 16) * 181) mod 2 ^ 32;
          start2 = word_of_int (drop_bit 8 dd)
      in \<lparr>lon1 = lon1, lon2 = lon2, min_lat = lat1, max_lat = lat2,
          start1 = start1, start2 = start2, include_poles = include_poles,
          discontinuous_longitude_range = (lon1 > lon2)\<rparr>)"

text \<open>\<^verbatim>\<open>DecoderWithBoundingBox::decode(value, result)\<close>: the returned pair is the
  boolean result and the new value of the out-parameter \<^verbatim>\<open>result\<close>.\<close>

definition DecoderWithBoundingBox_decode ::
  "DecoderWithBoundingBox \<Rightarrow> byte list \<Rightarrow> LatLongCoord \<Rightarrow> bool \<times> LatLongCoord" where
  "DecoderWithBoundingBox_decode this value result =
     (let start = value ! 0 in
      if (if discontinuous_longitude_range this
          then start2 this < start \<and> start < start1 this
          else start < start1 this \<or> start2 this < start)
         \<and> \<not> (include_poles this \<and> start = 0)
      then (False, result)
      else
        let decoded = decode value in
        if lat decoded < min_lat this \<or> lat decoded > max_lat this then (False, result)
        else if lat decoded = - 90 \<or> lat decoded = 90 then (True, decoded)
        else if (if discontinuous_longitude_range this
                 then lon2 this < lon decoded \<and> lon decoded < lon1 this
                 else lon decoded < lon1 this \<or> lon2 this < lon decoded)
        then (False, result)
        else (True, decoded))"

subsection \<open>Quantised angles as the specification words them\<close>

text \<open>
  These three definitions follow the specification (encoder, steps 2 to 4), not the code:
  the wrap of a longitude into \<open>[0, 360)\<close>, the latitude in sixteenths of an arcsecond
  counted from the south pole, and the longitude in sixteenths of an arcsecond, with
  \<open>360\<close> degrees folded to \<open>0\<close> and with \<open>0\<close> at a pole. The encoder is compared
  with them below.
\<close>

definition wrap360 :: "real \<Rightarrow> real" where
  "wrap360 x = x - 360 * of_int \<lfloor>x / 360\<rfloor>"

definition lat_units :: "real \<Rightarrow> int" where
  "lat_units la = c_round ((la + 90) * 57600)"

definition lon_units :: "real \<Rightarrow> real \<Rightarrow> int" where
  "lon_units la lo =
     (if lat_units la = 0 \<or> lat_units la = 10368000 then 0
      else if c_round (wrap360 lo * 57600) = 20736000 then 0
      else c_round (wrap360 lo * 57600))"

subsection \<open>The direct range check, and abbreviations for the proofs\<close>

text \<open>
  \<open>in_box\<close> is the direct range check of the specification: the latitude lies between
  the two corner latitudes, and the point is a pole or its wrapped longitude lies in the
  wrapped interval from \<open>lo1\<close> to \<open>lo2\<close>, taken across the seam when the wrapped \<open>lo1\<close>
  is above the wrapped \<open>lo2\<close>.
\<close>

definition in_box :: "double \<Rightarrow> double \<Rightarrow> double \<Rightarrow> double \<Rightarrow> double \<Rightarrow> double \<Rightarrow> bool" where
  "in_box la1 lo1 la2 lo2 la lo \<longleftrightarrow>
     la1 \<le> la \<and> la \<le> la2 \<and>
     (la = - 90 \<or> la = 90 \<or>
      (if wrap360 lo2 < wrap360 lo1
       then wrap360 lo1 \<le> wrap360 lo \<or> wrap360 lo \<le> wrap360 lo2
       else wrap360 lo1 \<le> wrap360 lo \<and> wrap360 lo \<le> wrap360 lo2))"

text \<open>
  \<open>corner_start\<close> and \<open>corner_pole\<close> name the two computations that the constructor of
  the bounding-box decoder performs once for each corner; \<open>start_of\<close> is the first byte
  of an encoding as a function of the two quantised angles.
\<close>

definition corner_start :: "double \<Rightarrow> double \<Rightarrow> byte" where
  "corner_start la w =
     (case calc_latlon_16ths la w of (lat_16ths, lon_16ths) \<Rightarrow>
        word_of_int (drop_bit 8
          ((c_div lat_16ths (3600 * 16) + c_div lon_16ths (3600 * 16) * 181) mod 2 ^ 32)))"

definition corner_pole :: "double \<Rightarrow> bool" where
  "corner_pole la \<longleftrightarrow> lat_units la = 0 \<or> lat_units la = 10368000"

definition start_of :: "int \<Rightarrow> int \<Rightarrow> nat" where
  "start_of a b = (nat a div 57600 + nat b div 57600 * 181) div 256"

section \<open>Auxiliary facts\<close>

subsection \<open>Bit operations as arithmetic\<close>

lemma push_bit_or_nat:
  fixes a b :: nat
  assumes "b < 2 ^ n"
  shows "push_bit n a OR b = a * 2 ^ n + b"
proof -
  have b: "take_bit n b = b"
    using assms by (simp add: take_bit_nat_eq_self)
  have "push_bit n a AND take_bit n b = 0"
    by (auto simp: bit_eq_iff bit_simps)
  then have "push_bit n a + b = push_bit n a OR b"
    using b by (simp add: disjunctive_add_eq_or)
  then show ?thesis by (simp add: push_bit_eq_mult)
qed

lemma and_3_nat: "(x::nat) AND 3 = x mod 4"
  using take_bit_eq_mask [of 2 x] by (simp add: take_bit_eq_mod mask_eq_exp_minus_1)

lemma and_15_nat: "(x::nat) AND 15 = x mod 16"
  using take_bit_eq_mask [of 4 x] by (simp add: take_bit_eq_mod mask_eq_exp_minus_1)

lemma and_255_nat: "(x::nat) AND 255 = x mod 256"
  using take_bit_eq_mask [of 8 x] by (simp add: take_bit_eq_mod mask_eq_exp_minus_1)

lemma and_255_int: "(x::int) AND 255 = x mod 256"
  using take_bit_eq_mask [of 8 x] by (simp add: take_bit_eq_mod mask_eq_exp_minus_1)

lemma unat_byte_of_nat: "k < 256 \<Longrightarrow> unat (word_of_int (int k) :: byte) = k"
  by (simp add: unat_of_nat)

lemma unat_nibbles:
  assumes "a < 16" "b < 16"
  shows "unat (word_of_int (push_bit 4 (int a) OR int b) :: byte) = a * 16 + b"
proof -
  have "push_bit 4 (int a) OR int b = int (push_bit 4 a OR b)"
    by (simp add: of_nat_or_eq of_nat_push_bit)
  also have "push_bit 4 a OR b = a * 16 + b"
    using push_bit_or_nat [of b 4 a] assms by simp
  finally have e: "push_bit 4 (int a) OR int b = int (a * 16 + b)" .
  show ?thesis
    unfolding e by (rule unat_byte_of_nat) (use assms in simp)
qed

lemma unat_quads:
  assumes "a < 4" "b < 4" "c < 4" "d < 4"
  shows "unat (word_of_int (push_bit 6 (int a) OR push_bit 4 (int b) OR
                            push_bit 2 (int c) OR int d) :: byte)
         = a * 64 + b * 16 + c * 4 + d"
proof -
  have "push_bit 6 (int a) OR push_bit 4 (int b) OR push_bit 2 (int c) OR int d
      = int (push_bit 6 a OR (push_bit 4 b OR (push_bit 2 c OR d)))"
    by (simp add: of_nat_or_eq of_nat_push_bit or.assoc)
  also have "push_bit 2 c OR d = c * 4 + d"
    using push_bit_or_nat [of d 2 c] assms by simp
  also have "push_bit 4 b OR (c * 4 + d) = b * 16 + (c * 4 + d)"
    using push_bit_or_nat [of "c * 4 + d" 4 b] assms by simp
  also have "push_bit 6 a OR (b * 16 + (c * 4 + d)) = a * 64 + b * 16 + c * 4 + d"
    using push_bit_or_nat [of "b * 16 + (c * 4 + d)" 6 a] assms by simp
  finally have e: "push_bit 6 (int a) OR push_bit 4 (int b) OR push_bit 2 (int c) OR int d
      = int (a * 64 + b * 16 + c * 4 + d)" .
  show ?thesis
    unfolding e by (rule unat_byte_of_nat) (use assms in simp)
qed

lemma unat_degrees:
  assumes "dd < 65536"
  shows "unat (word_of_int (drop_bit 8 (int dd mod 2 ^ 32)) :: byte) = dd div 256"
    and "unat (word_of_int ((int dd mod 2 ^ 32) AND 0xff) :: byte) = dd mod 256"
proof -
  have m: "int dd mod 2 ^ 32 = int dd"
    using assms by simp
  have d: "drop_bit 8 (int dd) = int (dd div 256)"
    by (simp add: drop_bit_eq_div of_nat_div)
  have a: "int dd AND 255 = int (dd mod 256)"
    by (simp add: and_255_int of_nat_mod)
  show "unat (word_of_int (drop_bit 8 (int dd mod 2 ^ 32)) :: byte) = dd div 256"
    unfolding m d by (rule unat_byte_of_nat) (use assms in simp)
  show "unat (word_of_int ((int dd mod 2 ^ 32) AND 0xff) :: byte) = dd mod 256"
    unfolding m a by (rule unat_byte_of_nat) simp
qed

subsection \<open>C division on non-negative operands\<close>

lemma c_div_nonneg: "0 \<le> a \<Longrightarrow> 0 < b \<Longrightarrow> c_div a b = a div b"
  by (simp add: c_div_def sgn_if)

lemma c_mod_nonneg: "0 \<le> a \<Longrightarrow> 0 < b \<Longrightarrow> c_mod a b = a mod b"
  by (simp add: c_mod_def c_div_nonneg minus_div_mult_eq_mod)

lemma DegreesMinutesSeconds_init_nat:
  "DegreesMinutesSeconds_init (int n) =
     \<lparr>degrees = int (n div 57600), minutes = int (n mod 57600 div 960),
      seconds = int (n mod 960 div 16), sec16ths = int (n mod 16)\<rparr>"
proof -
  have a: "n mod 57600 mod 960 = n mod 960"
    by (rule mod_mod_cancel) simp
  have b: "n mod 960 mod 16 = n mod 16"
    by (rule mod_mod_cancel) simp
  have "DegreesMinutesSeconds_init (int n) =
     \<lparr>degrees = int (n div 57600), minutes = int (n mod 57600 div 960),
      seconds = int (n mod 57600 mod 960 div 16),
      sec16ths = int (n mod 57600 mod 960 mod 16)\<rparr>"
    unfolding DegreesMinutesSeconds_init_def Let_def
    by (simp add: c_div_nonneg c_mod_nonneg of_nat_div of_nat_mod)
  then show ?thesis
    by (simp only: a b)
qed

subsection \<open>The six bytes written by the encoder\<close>

lemma encode_bytes_append:
  "encode_bytes lat_dms lon_dms result = result @
     [word_of_int (drop_bit 8 ((degrees lat_dms + degrees lon_dms * 181) mod 2 ^ 32)),
      word_of_int (((degrees lat_dms + degrees lon_dms * 181) mod 2 ^ 32) AND 0xff),
      word_of_int (push_bit 4 (c_div (minutes lat_dms) 4) OR c_div (minutes lon_dms) 4),
      word_of_int (push_bit 6 (c_mod (minutes lat_dms) 4) OR
                   push_bit 4 (c_mod (minutes lon_dms) 4) OR
                   push_bit 2 (c_div (seconds lat_dms) 15) OR
                   c_div (seconds lon_dms) 15),
      word_of_int (push_bit 4 (c_mod (seconds lat_dms) 15) OR c_mod (seconds lon_dms) 15),
      word_of_int (push_bit 4 (sec16ths lat_dms) OR sec16ths lon_dms)]"
  unfolding encode_bytes_def Let_def
  by (simp add: list_update_append eval_nat_numeral)

subsection \<open>Buffers of a fixed length\<close>

lemma length_6_cases:
  assumes "length (b :: 'a list) = 6"
  obtains b0 b1 b2 b3 b4 b5 where "b = [b0, b1, b2, b3, b4, b5]"
proof -
  from assms obtain b0 r0 where "b = b0 # r0" "length r0 = 5" by (cases b) auto
  moreover then obtain b1 r1 where "r0 = b1 # r1" "length r1 = 4" by (cases r0) auto
  moreover then obtain b2 r2 where "r1 = b2 # r2" "length r2 = 3" by (cases r1) auto
  moreover then obtain b3 r3 where "r2 = b3 # r3" "length r3 = 2" by (cases r2) auto
  moreover then obtain b4 r4 where "r3 = b4 # r4" "length r4 = 1" by (cases r3) auto
  moreover then obtain b5 where "r4 = [b5]" by (cases r4) auto
  ultimately show ?thesis using that by simp
qed

lemma replicate_small:
  "replicate 4 x = [x, x, x, x]" "replicate 3 x = [x, x, x]" "replicate 2 x = [x, x]"
  "replicate 1 x = [x]"
  by (simp_all add: numeral_eq_Suc)

lemma decode_2: "decode [b0, b1] = decode [b0, b1, 0, 0, 0, 0]"
  by (simp add: decode_def Let_def)

lemma decode_3: "decode [b0, b1, b2] = decode [b0, b1, b2, 0, 0, 0]"
  by (simp add: decode_def Let_def)

lemma decode_4: "decode [b0, b1, b2, b3] = decode [b0, b1, b2, b3, 0, 0]"
  by (simp add: decode_def Let_def)

lemma decode_5: "decode [b0, b1, b2, b3, b4] = decode [b0, b1, b2, b3, b4, 0]"
  by (simp add: decode_def Let_def)

subsection \<open>Decoding six bytes\<close>

lemma decode_6:
  "decode [b0, b1, b2, b3, b4, b5] =
    \<lparr>lat = real ((unat b0 * 256 + unat b1) mod 181)
           + (real (unat b2 div 16 * 4) + real (unat b3 div 64 mod 4)
              + (real (unat b3 div 4 mod 4 * 15) + real (unat b4 div 16 mod 16)
                 + real (unat b5 div 16) / 16) / 60) / 60 - 90,
     lon = real ((unat b0 * 256 + unat b1) div 181)
           + (real (unat b2 mod 16 * 4) + real (unat b3 div 16 mod 4)
              + (real (unat b3 mod 4 * 15) + real (unat b4 mod 16)
                 + real (unat b5 mod 16) / 16) / 60) / 60\<rparr>"
proof -
  have lt: "unat b0 < 256" "unat b1 < 256"
    using unsigned_less [of b0] unsigned_less [of b1] by simp_all
  have tmp: "push_bit 8 (unat b0 AND 0xff) OR (unat b1 AND 0xff) = unat b0 * 256 + unat b1"
    using push_bit_or_nat [of "unat b1" 8 "unat b0"] lt by (simp add: and_255_nat)
  show ?thesis
    unfolding decode_def Let_def
    by (simp add: tmp drop_bit_eq_div and_3_nat and_15_nat del: push_bit_and)
qed

lemma dms_fraction:
  "real (n div 57600) + (real (n mod 57600 div 960)
      + (real (n mod 960 div 16) + real (n mod 16) / 16) / 60) / 60 = real n / 57600"
proof -
  have a: "n mod 57600 mod 960 = n mod 960"
    by (rule mod_mod_cancel) simp
  have b: "n mod 960 mod 16 = n mod 16"
    by (rule mod_mod_cancel) simp
  have "n = 57600 * (n div 57600) + n mod 57600" by simp
  also have "n mod 57600 = 960 * (n mod 57600 div 960) + n mod 57600 mod 960" by simp
  also have "n mod 57600 mod 960 = 16 * (n mod 960 div 16) + n mod 960 mod 16"
    unfolding a by simp
  finally have "n = 57600 * (n div 57600) + (960 * (n mod 57600 div 960)
      + (16 * (n mod 960 div 16) + n mod 16))"
    unfolding b .
  then have "real n = real (57600 * (n div 57600) + (960 * (n mod 57600 div 960)
      + (16 * (n mod 960 div 16) + n mod 16)))"
    by simp
  then show ?thesis
    by (simp add: field_simps)
qed

lemma low_digit:
  fixes d x :: nat
  assumes "d < k"
  shows "(x * k + d) mod k = d" and "(x * k + d) div k = x"
  using assms by simp_all

lemma quad_fields:
  fixes a b c d :: nat
  assumes "a < 4" "b < 4" "c < 4" "d < 4"
  shows "(a * 64 + b * 16 + c * 4 + d) div 64 mod 4 = a"
    and "(a * 64 + b * 16 + c * 4 + d) div 16 mod 4 = b"
    and "(a * 64 + b * 16 + c * 4 + d) div 4 mod 4 = c"
    and "(a * 64 + b * 16 + c * 4 + d) mod 4 = d"
proof -
  have e: "a * 64 + b * 16 + c * 4 + d = ((a * 4 + b) * 4 + c) * 4 + d"
    by simp
  have d4: "(a * 64 + b * 16 + c * 4 + d) div 4 = (a * 4 + b) * 4 + c"
    unfolding e using assms(4) by (rule low_digit(2))
  have d16: "(a * 64 + b * 16 + c * 4 + d) div 16 = a * 4 + b"
    using low_digit(2) [OF assms(3), of "a * 4 + b"] d4
    by (simp add: div_mult2_eq [of _ 4 4, simplified])
  have d64: "(a * 64 + b * 16 + c * 4 + d) div 64 = a"
    using low_digit(2) [OF assms(2), of a] d16
    by (simp add: div_mult2_eq [of _ 16 4, simplified])
  show "(a * 64 + b * 16 + c * 4 + d) div 64 mod 4 = a"
    unfolding d64 using assms(1) by simp
  show "(a * 64 + b * 16 + c * 4 + d) div 16 mod 4 = b"
    unfolding d16 using assms(2) by (rule low_digit(1))
  show "(a * 64 + b * 16 + c * 4 + d) div 4 mod 4 = c"
    unfolding d4 using assms(3) by (rule low_digit(1))
  show "(a * 64 + b * 16 + c * 4 + d) mod 4 = d"
    unfolding e using assms(4) by (rule low_digit(1))
qed

lemma nibble_fields:
  fixes a b :: nat
  assumes "a < 16" "b < 16"
  shows "(a * 16 + b) div 16 = a" and "(a * 16 + b) mod 16 = b"
    and "(a * 16 + b) div 16 mod 16 = a"
  using assms by simp_all

lemma div_mod_real: "real (k div 4 * 4) + real (k mod 4) = real k"
    "real (k div 15 * 15) + real (k mod 15) = real k" for k :: nat
  using arg_cong [OF div_mult_mod_eq [of k 4], of real]
    arg_cong [OF div_mult_mod_eq [of k 15], of real]
  by (simp_all only: of_nat_add)

lemma decode_fields:
  fixes d1 m1 s1 t1 d2 m2 s2 t2 :: nat
  assumes d: "d1 \<le> 180" "d2 \<le> 359"
    and m: "m1 < 60" "m2 < 60" and s: "s1 < 60" "s2 < 60" and t: "t1 < 16" "t2 < 16"
  shows "decode (encode_bytes
           \<lparr>degrees = int d1, minutes = int m1, seconds = int s1, sec16ths = int t1\<rparr>
           \<lparr>degrees = int d2, minutes = int m2, seconds = int s2, sec16ths = int t2\<rparr> [])
         = \<lparr>lat = real d1 + (real m1 + (real s1 + real t1 / 16) / 60) / 60 - 90,
            lon = real d2 + (real m2 + (real s2 + real t2 / 16) / 60) / 60\<rparr>"
proof -
  define dd where "dd = d1 + d2 * 181"
  have dd: "dd < 65536" "dd mod 181 = d1" "dd div 181 = d2"
    using d by (simp_all add: dd_def)
  have idd: "int d1 + int d2 * 181 = int dd"
    by (simp add: dd_def)
  have cd: "c_div (int m1) 4 = int (m1 div 4)" "c_div (int m2) 4 = int (m2 div 4)"
    "c_mod (int m1) 4 = int (m1 mod 4)" "c_mod (int m2) 4 = int (m2 mod 4)"
    "c_div (int s1) 15 = int (s1 div 15)" "c_div (int s2) 15 = int (s2 div 15)"
    "c_mod (int s1) 15 = int (s1 mod 15)" "c_mod (int s2) 15 = int (s2 mod 15)"
    by (simp_all add: c_div_nonneg c_mod_nonneg of_nat_div of_nat_mod)
  have q: "m1 div 4 < 16" "m2 div 4 < 16" "s1 div 15 < 4" "s2 div 15 < 4"
    "s1 mod 15 < 16" "s2 mod 15 < 16" "m1 mod 4 < 4" "m2 mod 4 < 4"
    using m s by simp_all
  define B0 :: byte where "B0 = word_of_int (drop_bit 8 (int dd mod 2 ^ 32))"
  define B1 :: byte where "B1 = word_of_int ((int dd mod 2 ^ 32) AND 0xff)"
  define B2 :: byte where "B2 = word_of_int (push_bit 4 (int (m1 div 4)) OR int (m2 div 4))"
  define B3 :: byte where "B3 = word_of_int (push_bit 6 (int (m1 mod 4)) OR
      push_bit 4 (int (m2 mod 4)) OR push_bit 2 (int (s1 div 15)) OR int (s2 div 15))"
  define B4 :: byte where "B4 = word_of_int (push_bit 4 (int (s1 mod 15)) OR int (s2 mod 15))"
  define B5 :: byte where "B5 = word_of_int (push_bit 4 (int t1) OR int t2)"
  have u0: "unat B0 = dd div 256" and u1: "unat B1 = dd mod 256"
    unfolding B0_def B1_def using unat_degrees [OF dd(1)] by simp_all
  have u2: "unat B2 = m1 div 4 * 16 + m2 div 4"
    unfolding B2_def by (rule unat_nibbles) (use q in simp_all)
  have u3: "unat B3 = m1 mod 4 * 64 + m2 mod 4 * 16 + s1 div 15 * 4 + s2 div 15"
    unfolding B3_def by (rule unat_quads) (use q in simp_all)
  have u4: "unat B4 = s1 mod 15 * 16 + s2 mod 15"
    unfolding B4_def by (rule unat_nibbles) (use q in simp_all)
  have u5: "unat B5 = t1 * 16 + t2"
    unfolding B5_def by (rule unat_nibbles) (use t in simp_all)
  have bytes: "encode_bytes
           \<lparr>degrees = int d1, minutes = int m1, seconds = int s1, sec16ths = int t1\<rparr>
           \<lparr>degrees = int d2, minutes = int m2, seconds = int s2, sec16ths = int t2\<rparr> []
         = [B0, B1, B2, B3, B4, B5]"
    unfolding encode_bytes_append B0_def B1_def B2_def B3_def B4_def B5_def
    by (simp add: idd cd)
  have f01: "unat B0 * 256 + unat B1 = dd"
    unfolding u0 u1 by simp
  have f2: "unat B2 div 16 = m1 div 4" "unat B2 mod 16 = m2 div 4"
    unfolding u2 using q by (simp_all add: nibble_fields)
  have f3: "unat B3 div 64 mod 4 = m1 mod 4" "unat B3 div 16 mod 4 = m2 mod 4"
    "unat B3 div 4 mod 4 = s1 div 15" "unat B3 mod 4 = s2 div 15"
    unfolding u3 using q by (simp_all add: quad_fields)
  have f4: "unat B4 div 16 mod 16 = s1 mod 15" "unat B4 mod 16 = s2 mod 15"
    unfolding u4 using q by (simp_all add: nibble_fields)
  have f5: "unat B5 div 16 = t1" "unat B5 mod 16 = t2"
    unfolding u5 using t by (simp_all add: nibble_fields)
  have a: "real (m1 div 4 * 4) + real (m1 mod 4)
        + (real (s1 div 15 * 15) + real (s1 mod 15) + real t1 / 16) / 60
      = real m1 + (real s1 + real t1 / 16) / 60"
    by (simp only: div_mod_real)
  have b: "real (m2 div 4 * 4) + real (m2 mod 4)
        + (real (s2 div 15 * 15) + real (s2 mod 15) + real t2 / 16) / 60
      = real m2 + (real s2 + real t2 / 16) / 60"
    by (simp only: div_mod_real)
  show ?thesis
    unfolding bytes decode_6 f01 f2 f3 f4 f5 dd a b ..
qed

subsection \<open>The encoder against the quantised angles\<close>

lemma wrap360_range: "0 \<le> wrap360 x" "wrap360 x < 360"
proof -
  have "of_int \<lfloor>x / 360\<rfloor> \<le> x / 360" "x / 360 < of_int \<lfloor>x / 360\<rfloor> + 1"
    by linarith+
  then show "0 \<le> wrap360 x" "wrap360 x < 360"
    unfolding wrap360_def by (simp_all add: field_simps)
qed

lemma fmod_wrap:
  "(let lon = fmod lo 360 in if lon < 0 then lon + 360 else lon) = wrap360 lo"
proof (cases "0 \<le> lo")
  case True
  then have "fmod lo 360 = wrap360 lo"
    by (simp add: fmod_def c_trunc_def wrap360_def)
  then show ?thesis
    using wrap360_range(1) [of lo] by (simp add: Let_def)
next
  case False
  then have f: "fmod lo 360 = lo - 360 * of_int \<lceil>lo / 360\<rceil>"
    by (simp add: fmod_def c_trunc_def)
  show ?thesis
  proof (cases "lo / 360 = of_int \<lfloor>lo / 360\<rfloor>")
    case True
    then have "\<lceil>lo / 360\<rceil> = \<lfloor>lo / 360\<rfloor>"
      by (simp add: ceiling_altdef)
    then have "fmod lo 360 = wrap360 lo"
      by (simp add: f wrap360_def)
    then show ?thesis
      using wrap360_range(1) [of lo] by (simp add: Let_def)
  next
    case False
    then have c: "\<lceil>lo / 360\<rceil> = \<lfloor>lo / 360\<rfloor> + 1"
      by (simp add: ceiling_altdef)
    then have e: "fmod lo 360 + 360 = wrap360 lo"
      by (simp add: f wrap360_def algebra_simps)
    then have "fmod lo 360 < 0"
      using wrap360_range(2) [of lo] by linarith
    then show ?thesis
      using e by (simp add: Let_def)
  qed
qed

lemma c_round_nonneg_bounds:
  assumes "0 \<le> x" "x \<le> of_int N"
  shows "0 \<le> c_round x" "c_round x \<le> N"
proof -
  have r: "c_round x = \<lfloor>x + 1 / 2\<rfloor>"
    using assms(1) by (simp add: c_round_def)
  show "0 \<le> c_round x"
    unfolding r using assms(1) by simp
  have "x + 1 / 2 < of_int (N + 1)"
    using assms(2) by simp
  then have "\<lfloor>x + 1 / 2\<rfloor> < N + 1"
    by (simp only: floor_less_iff)
  then show "c_round x \<le> N"
    unfolding r by simp
qed

lemma lat_units_range:
  assumes "- 90 \<le> la" "la \<le> 90"
  shows "0 \<le> lat_units la" "lat_units la \<le> 10368000"
  unfolding lat_units_def
  using c_round_nonneg_bounds [of "(la + 90) * 57600" 10368000] assms by simp_all

lemma lon_units_range: "0 \<le> lon_units la lo" "lon_units la lo < 20736000"
proof -
  have "0 \<le> wrap360 lo * 57600" "wrap360 lo * 57600 \<le> of_int 20736000"
    using wrap360_range [of lo] by simp_all
  then have "0 \<le> c_round (wrap360 lo * 57600)" "c_round (wrap360 lo * 57600) \<le> 20736000"
    by (rule c_round_nonneg_bounds)+
  then show "0 \<le> lon_units la lo" "lon_units la lo < 20736000"
    by (simp_all add: lon_units_def)
qed

lemma encode_units:
  assumes "- 90 \<le> la" "la \<le> 90"
  shows "encode la lo res =
    (True, res @ encode_bytes (DegreesMinutesSeconds_init (lat_units la))
                   (DegreesMinutesSeconds_init (lon_units la lo)) [])"
proof -
  have w: "(if fmod lo 360 < 0 then fmod lo 360 + 360 else fmod lo 360) = wrap360 lo"
    using fmod_wrap [of lo] by (simp add: Let_def)
  have "encode la lo res =
    (True, encode_bytes (DegreesMinutesSeconds_init (lat_units la))
             (DegreesMinutesSeconds_init (lon_units la lo)) res)"
    using assms unfolding encode_def Let_def w
    by (simp add: lat_units_def lon_units_def)
  then show ?thesis
    by (simp add: encode_bytes_append)
qed

lemma decode_units:
  assumes "n \<le> 10368000" "m < 20736000"
  shows "decode (encode_bytes (DegreesMinutesSeconds_init (int n))
                   (DegreesMinutesSeconds_init (int m)) [])
         = \<lparr>lat = real n / 57600 - 90, lon = real m / 57600\<rparr>"
proof -
  have d: "n div 57600 \<le> 180" "m div 57600 \<le> 359"
    using assms by simp_all
  have r: "k mod 57600 div 960 < 60" "k mod 960 div 16 < 60" "k mod 16 < 16" for k :: nat
    by (simp_all add: div_less_iff_less_mult)
  show ?thesis
    unfolding DegreesMinutesSeconds_init_nat
    by (simp only: decode_fields [OF d r(1) [of n] r(1) [of m] r(2) [of n] r(2) [of m]
          r(3) [of n] r(3) [of m]] dms_fraction)
qed

lemma decode_encode:
  assumes "- 90 \<le> la" "la \<le> 90"
  shows "decode (drop (length res) (snd (encode la lo res))) =
     \<lparr>lat = real_of_int (lat_units la) / 57600 - 90,
      lon = real_of_int (lon_units la lo) / 57600\<rparr>"
proof -
  obtain n where n: "lat_units la = int n"
    using lat_units_range(1) [OF assms] nonneg_int_cases by blast
  obtain m where m: "lon_units la lo = int m"
    using lon_units_range(1) [of la lo] nonneg_int_cases by blast
  have "n \<le> 10368000" "m < 20736000"
    using lat_units_range(2) [OF assms] lon_units_range(2) [of la lo] n m by simp_all
  then show ?thesis
    unfolding encode_units [OF assms] n m by (simp add: decode_units)
qed

lemma lat_units_unshifted:
  assumes "- 90 \<le> la"
  shows "lat_units la - 5184000 =
     c_round (la * 57600) + (if la < 0 \<and> la * 57600 + 1 / 2 \<in> \<int> then 1 else 0)"
proof -
  have "0 \<le> (la + 90) * 57600"
    using assms by simp
  then have "lat_units la = \<lfloor>(la + 90) * 57600 + 1 / 2\<rfloor>"
    by (simp add: lat_units_def c_round_def)
  also have "(la + 90) * 57600 + 1 / 2 = (la * 57600 + 1 / 2) + of_int 5184000"
    by (simp add: algebra_simps)
  also have "\<lfloor>(la * 57600 + 1 / 2) + of_int 5184000\<rfloor> = \<lfloor>la * 57600 + 1 / 2\<rfloor> + 5184000"
    by (simp only: floor_add_int)
  finally have u: "lat_units la - 5184000 = \<lfloor>la * 57600 + 1 / 2\<rfloor>"
    by simp
  show ?thesis
  proof (cases "la < 0")
    case False
    then show ?thesis
      unfolding u by (simp add: c_round_def)
  next
    case True
    then have r: "c_round (la * 57600) = \<lceil>la * 57600 + 1 / 2\<rceil> - 1"
      by (simp add: c_round_def mult_less_0_iff not_le flip: ceiling_diff_one)
    show ?thesis
    proof (cases "la * 57600 + 1 / 2 \<in> \<int>")
      case True
      then have "\<lceil>la * 57600 + 1 / 2\<rceil> = \<lfloor>la * 57600 + 1 / 2\<rfloor>"
        by (metis Ints_cases ceiling_of_int floor_of_int)
      then show ?thesis
        unfolding u r using True \<open>la < 0\<close> by simp
    next
      case False
      then have "\<lceil>la * 57600 + 1 / 2\<rceil> = \<lfloor>la * 57600 + 1 / 2\<rfloor> + 1"
        by (metis Ints_of_int ceiling_altdef)
      then show ?thesis
        unfolding u r using False by simp
    qed
  qed
qed


subsection \<open>The first byte of an encoding and of a corner\<close>

lemma DecoderWithBoundingBox_init_fields:
  "DecoderWithBoundingBox_init la1 lo1 la2 lo2 =
     \<lparr>lon1 = wrap360 lo1, lon2 = wrap360 lo2, min_lat = la1, max_lat = la2,
      start1 = corner_start la1 (wrap360 lo1), start2 = corner_start la2 (wrap360 lo2),
      include_poles = (corner_pole la1 \<or> corner_pole la2),
      discontinuous_longitude_range = (wrap360 lo2 < wrap360 lo1)\<rparr>"
proof -
  have w: "(if fmod lo 360 < 0 then fmod lo 360 + 360 else fmod lo 360) = wrap360 lo" for lo
    using fmod_wrap [of lo] by (simp add: Let_def)
  show ?thesis
    unfolding DecoderWithBoundingBox_init_def Let_def w corner_start_def corner_pole_def
    by (auto simp: calc_latlon_16ths_def Let_def lat_units_def)
qed

lemma c_round_mono:
  assumes "0 \<le> x" "x \<le> y"
  shows "c_round x \<le> c_round y"
  using assms by (simp add: c_round_def floor_mono)

lemma c_round_of_int: "c_round (of_int k) = k"
proof (cases "0 \<le> k")
  case True
  have "\<lfloor>real_of_int k + 1 / 2\<rfloor> = k" by linarith
  then show ?thesis using True by (simp add: c_round_def)
next
  case False
  have "\<lceil>real_of_int k - 1 / 2\<rceil> = k" by linarith
  then show ?thesis using False by (simp add: c_round_def)
qed

lemma c_round_Ints: "x \<in> \<int> \<Longrightarrow> real_of_int (c_round x) = x"
  by (auto simp: c_round_of_int elim: Ints_cases)

lemma wrap360_grid:
  assumes "lo * 57600 \<in> \<int>"
  shows "wrap360 lo * 57600 \<in> \<int>"
proof -
  have "wrap360 lo * 57600 = lo * 57600 - of_int (20736000 * \<lfloor>lo / 360\<rfloor>)"
    by (simp add: wrap360_def algebra_simps)
  then show ?thesis
    using assms by (simp only: Ints_diff Ints_of_int)
qed

lemma start_of_mono:
  assumes "a \<le> a'" "b \<le> b'"
  shows "start_of a b \<le> start_of a' b'"
proof -
  have "nat a div 57600 \<le> nat a' div 57600" "nat b div 57600 \<le> nat b' div 57600"
    using assms by (simp_all add: div_le_mono)
  then have "nat a div 57600 + nat b div 57600 * 181 \<le> nat a' div 57600 + nat b' div 57600 * 181"
    by simp
  then show ?thesis
    unfolding start_of_def by (rule div_le_mono)
qed

lemma start_byte:
  assumes "0 \<le> a" "a \<le> 10368000" "0 \<le> b" "b < 20736000"
  shows "unat (word_of_int (drop_bit 8
            ((c_div a (3600 * 16) + c_div b (3600 * 16) * 181) mod 2 ^ 32)) :: byte)
         = start_of a b"
proof -
  obtain n where n: "a = int n"
    using assms(1) nonneg_int_cases by blast
  obtain m where m: "b = int m"
    using assms(3) nonneg_int_cases by blast
  define dd where "dd = n div 57600 + m div 57600 * 181"
  have "n div 57600 \<le> 180" "m div 57600 \<le> 359"
    using assms n m by simp_all
  then have dd: "dd < 65536"
    by (simp add: dd_def)
  have "c_div a (3600 * 16) + c_div b (3600 * 16) * 181 = int dd"
    unfolding n m dd_def by (simp add: c_div_nonneg of_nat_div)
  then show ?thesis
    using unat_degrees(1) [OF dd] by (simp add: start_of_def n m dd_def)
qed

lemma calc_latlon_16ths_range:
  assumes "- 90 \<le> la" "la \<le> 90" "0 \<le> w" "w < 360"
  shows "fst (calc_latlon_16ths la w) = lat_units la"
    and "0 \<le> snd (calc_latlon_16ths la w)"
    and "snd (calc_latlon_16ths la w) < 20736000"
    and "snd (calc_latlon_16ths la w) \<le> c_round (w * 57600)"
    and "c_round (w * 57600) \<noteq> 20736000 \<Longrightarrow> snd (calc_latlon_16ths la w) = c_round (w * 57600)"
    and "c_round (w * 57600) = 20736000 \<Longrightarrow> snd (calc_latlon_16ths la w) = 0"
proof -
  have "0 \<le> w * 57600" "w * 57600 \<le> of_int 20736000"
    using assms(3,4) by simp_all
  then have "0 \<le> c_round (w * 57600)" "c_round (w * 57600) \<le> 20736000"
    by (rule c_round_nonneg_bounds)+
  then show "fst (calc_latlon_16ths la w) = lat_units la"
    and "0 \<le> snd (calc_latlon_16ths la w)"
    and "snd (calc_latlon_16ths la w) < 20736000"
    and "snd (calc_latlon_16ths la w) \<le> c_round (w * 57600)"
    and "c_round (w * 57600) \<noteq> 20736000 \<Longrightarrow> snd (calc_latlon_16ths la w) = c_round (w * 57600)"
    and "c_round (w * 57600) = 20736000 \<Longrightarrow> snd (calc_latlon_16ths la w) = 0"
    by (simp_all add: calc_latlon_16ths_def Let_def lat_units_def)
qed

lemma corner_start_unat:
  assumes "- 90 \<le> la" "la \<le> 90" "0 \<le> w" "w < 360"
  shows "unat (corner_start la w) =
     start_of (lat_units la) (snd (calc_latlon_16ths la w))"
proof -
  note c = calc_latlon_16ths_range [OF assms]
  have "corner_start la w = word_of_int (drop_bit 8
          ((c_div (lat_units la) (3600 * 16)
            + c_div (snd (calc_latlon_16ths la w)) (3600 * 16) * 181) mod 2 ^ 32))"
    unfolding corner_start_def c(1) [symmetric] by (simp only: case_prod_beta)
  then show ?thesis
    using start_byte [OF lat_units_range [OF assms(1,2)] c(2,3)] by simp
qed

lemma encode_start_unat:
  assumes "- 90 \<le> la" "la \<le> 90"
  shows "unat (drop (length res) (snd (encode la lo res)) ! 0) =
     start_of (lat_units la) (lon_units la lo)"
proof -
  obtain n where n: "lat_units la = int n"
    using lat_units_range(1) [OF assms] nonneg_int_cases by blast
  obtain m where m: "lon_units la lo = int m"
    using lon_units_range(1) [of la lo] nonneg_int_cases by blast
  have le: "n \<le> 10368000" "m < 20736000"
    using lat_units_range(2) [OF assms] lon_units_range(2) [of la lo] n m by simp_all
  define dd where "dd = n div 57600 + m div 57600 * 181"
  have "n div 57600 \<le> 180" "m div 57600 \<le> 359"
    using le by simp_all
  then have dd: "dd < 65536"
    by (simp add: dd_def)
  have idd: "int (n div 57600) + int (m div 57600) * 181 = int dd"
    by (simp add: dd_def)
  define B0 :: byte where "B0 = word_of_int (drop_bit 8 (int dd mod 2 ^ 32))"
  define bs where "bs = drop (length res) (snd (encode la lo res))"
  have "bs = encode_bytes (DegreesMinutesSeconds_init (int n))
               (DegreesMinutesSeconds_init (int m)) []"
    by (simp add: bs_def encode_units [OF assms] n m)
  then have "\<exists>t. bs = B0 # t"
    unfolding DegreesMinutesSeconds_init_nat encode_bytes_append B0_def
    by (simp add: idd)
  then have "bs ! 0 = B0"
    by auto
  moreover have "unat B0 = dd div 256"
    unfolding B0_def by (rule unat_degrees(1) [OF dd])
  ultimately show ?thesis
    unfolding bs_def n m by (simp add: start_of_def dd_def)
qed

lemma lat_units_grid:
  assumes "- 90 \<le> la" "la * 57600 \<in> \<int>"
  shows "real_of_int (lat_units la) = (la + 90) * 57600"
proof -
  have "(la + 90) * 57600 = la * 57600 + of_int 5184000"
    by (simp add: algebra_simps)
  then have "(la + 90) * 57600 \<in> \<int>"
    using assms(2) by (simp only: Ints_add Ints_of_int)
  then show ?thesis
    unfolding lat_units_def by (rule c_round_Ints)
qed

lemma corner_pole_grid:
  assumes "- 90 \<le> la" "la * 57600 \<in> \<int>"
  shows "corner_pole la \<longleftrightarrow> la = - 90 \<or> la = 90"
proof -
  have "lat_units la = 0 \<longleftrightarrow> real_of_int (lat_units la) = 0"
    "lat_units la = 10368000 \<longleftrightarrow> real_of_int (lat_units la) = 10368000"
    by simp_all
  then show ?thesis
    unfolding corner_pole_def lat_units_grid [OF assms] by auto
qed

lemma lon_units_grid:
  assumes "lo * 57600 \<in> \<int>"
  shows "real_of_int (c_round (wrap360 lo * 57600)) = wrap360 lo * 57600"
    and "c_round (wrap360 lo * 57600) \<noteq> 20736000"
proof -
  show e: "real_of_int (c_round (wrap360 lo * 57600)) = wrap360 lo * 57600"
    using wrap360_grid [OF assms] by (rule c_round_Ints)
  have "wrap360 lo * 57600 < 20736000"
    using wrap360_range(2) [of lo] by simp
  then have "real_of_int (c_round (wrap360 lo * 57600)) < 20736000"
    unfolding e .
  then show "c_round (wrap360 lo * 57600) \<noteq> 20736000"
    by auto
qed

lemma decode_encode_grid:
  assumes "- 90 \<le> la" "la \<le> 90" "la * 57600 \<in> \<int>" "lo * 57600 \<in> \<int>"
  shows "decode (drop (length res) (snd (encode la lo res))) =
     \<lparr>lat = la, lon = (if la = - 90 \<or> la = 90 then 0 else wrap360 lo)\<rparr>"
proof -
  have a: "real_of_int (lat_units la) / 57600 - 90 = la"
    unfolding lat_units_grid [OF assms(1,3)] by (simp add: field_simps)
  have b: "real_of_int (lon_units la lo) / 57600 =
      (if la = - 90 \<or> la = 90 then 0 else wrap360 lo)"
    using corner_pole_grid [OF assms(1,3)] lon_units_grid [OF assms(4)]
    by (simp add: lon_units_def corner_pole_def)
  show ?thesis
    unfolding decode_encode [OF assms(1,2)] a b ..
qed

subsection \<open>The bounding-box decoder on grid points\<close>

text \<open>
  In exact arithmetic, and for corner latitudes in \<open>[-90, 90]\<close>, the decoder accepts the
  encoding of a grid point only if the point is in the box, and accepts every point of the
  box unless the eastern longitude of a box that does not cross the seam rounds to \<open>360\<close>
  degrees. The program compares doubles, whose rounding errors these lemmas do not cover.
\<close>

lemma bounding_box_sound:
  assumes "- 90 \<le> la" "la \<le> 90" "la * 57600 \<in> \<int>" "lo * 57600 \<in> \<int>"
    and "fst (DecoderWithBoundingBox_decode (DecoderWithBoundingBox_init la1 lo1 la2 lo2)
               (drop (length res) (snd (encode la lo res))) r)"
  shows "in_box la1 lo1 la2 lo2 la lo"
proof -
  define bs where "bs = drop (length res) (snd (encode la lo res))"
  have dec: "decode bs = \<lparr>lat = la, lon = (if la = - 90 \<or> la = 90 then 0 else wrap360 lo)\<rparr>"
    unfolding bs_def by (rule decode_encode_grid [OF assms(1-4)])
  from assms(5) show ?thesis
    unfolding bs_def [symmetric] DecoderWithBoundingBox_init_fields
      DecoderWithBoundingBox_decode_def Let_def dec in_box_def
    by (auto split: if_splits)
qed

lemma bounding_box_complete:
  assumes g: "- 90 \<le> la" "la \<le> 90" "la * 57600 \<in> \<int>" "lo * 57600 \<in> \<int>"
    and box: "- 90 \<le> la1" "la2 \<le> 90"
    and nofold: "wrap360 lo2 < wrap360 lo1 \<or> c_round (wrap360 lo2 * 57600) \<noteq> 20736000"
    and inb: "in_box la1 lo1 la2 lo2 la lo"
  shows "fst (DecoderWithBoundingBox_decode (DecoderWithBoundingBox_init la1 lo1 la2 lo2)
               (drop (length res) (snd (encode la lo res))) r)"
proof -
  define bs where "bs = drop (length res) (snd (encode la lo res))"
  define L1 where "L1 = wrap360 lo1"
  define L2 where "L2 = wrap360 lo2"
  define W where "W = wrap360 lo"
  have dec: "decode bs = \<lparr>lat = la, lon = (if la = - 90 \<or> la = 90 then 0 else W)\<rparr>"
    unfolding bs_def W_def by (rule decode_encode_grid [OF g])
  have lat: "la1 \<le> la" "la \<le> la2"
    using inb by (simp_all add: in_box_def)
  have r1: "- 90 \<le> la1" "la1 \<le> 90" and r2: "- 90 \<le> la2" "la2 \<le> 90"
    using lat g(1,2) box by simp_all
  have wr: "0 \<le> L1" "L1 < 360" "0 \<le> L2" "L2 < 360" "0 \<le> W" "W < 360"
    unfolding L1_def L2_def W_def by (rule wrap360_range)+
  note c1 = calc_latlon_16ths_range [OF r1 wr(1,2)]
  note c2 = calc_latlon_16ths_range [OF r2 wr(3,4)]
  have s: "unat (bs ! 0) = start_of (lat_units la) (lon_units la lo)"
    unfolding bs_def by (rule encode_start_unat [OF g(1,2)])
  have s1: "unat (corner_start la1 L1) = start_of (lat_units la1) (snd (calc_latlon_16ths la1 L1))"
    by (rule corner_start_unat [OF r1 wr(1,2)])
  have s2: "unat (corner_start la2 L2) = start_of (lat_units la2) (snd (calc_latlon_16ths la2 L2))"
    by (rule corner_start_unat [OF r2 wr(3,4)])
  have u1: "lat_units la1 \<le> lat_units la"
    unfolding lat_units_def using r1(1) lat(1) by (intro c_round_mono) simp_all
  have u2: "lat_units la \<le> lat_units la2"
    unfolding lat_units_def using g(1) lat(2) by (intro c_round_mono) simp_all
  have pass: "\<not> ((if L2 < L1
               then corner_start la2 L2 < bs ! 0 \<and> bs ! 0 < corner_start la1 L1
               else bs ! 0 < corner_start la1 L1 \<or> corner_start la2 L2 < bs ! 0)
              \<and> \<not> ((corner_pole la1 \<or> corner_pole la2) \<and> bs ! 0 = 0))"
  proof (cases "la = - 90 \<or> la = 90")
    case True
    then have p: "corner_pole la"
      using corner_pole_grid [OF g(1,3)] by simp
    then have "lon_units la lo = 0"
      by (simp add: lon_units_def corner_pole_def)
    then have "unat (bs ! 0) = 0"
      using p unfolding s corner_pole_def by (auto simp: start_of_def)
    then have z: "bs ! 0 = 0"
      by (simp add: unat_eq_0)
    have "la1 = - 90 \<or> la2 = 90"
      using True lat r1 r2 by auto
    then have "corner_pole la1 \<or> corner_pole la2"
      by (auto simp: corner_pole_def lat_units_def c_round_def)
    then show ?thesis
      using z by simp
  next
    case False
    then have "\<not> corner_pole la"
      using corner_pole_grid [OF g(1,3)] by simp
    then have m: "lon_units la lo = c_round (W * 57600)"
      using lon_units_grid(2) [OF g(4)] by (simp add: lon_units_def corner_pole_def W_def)
    have lower: "unat (corner_start la1 L1) \<le> unat (bs ! 0)" if "L1 \<le> W"
    proof -
      have "c_round (L1 * 57600) \<le> c_round (W * 57600)"
        using wr(1) that by (intro c_round_mono) simp_all
      then have "snd (calc_latlon_16ths la1 L1) \<le> lon_units la lo"
        unfolding m using c1(4) by simp
      then show ?thesis
        unfolding s s1 using u1 by (intro start_of_mono)
    qed
    have upper: "unat (bs ! 0) \<le> unat (corner_start la2 L2)"
      if "W \<le> L2" "c_round (L2 * 57600) \<noteq> 20736000"
    proof -
      have "c_round (W * 57600) \<le> c_round (L2 * 57600)"
        using wr(5) that(1) by (intro c_round_mono) simp_all
      then have "lon_units la lo \<le> snd (calc_latlon_16ths la2 L2)"
        unfolding m using c2(5) [OF that(2)] by simp
      then show ?thesis
        unfolding s s2 using u2 by (intro start_of_mono)
    qed
    have folded: "unat (corner_start la1 L1) \<le> unat (bs ! 0)"
      if "L2 < L1" "c_round (L2 * 57600) = 20736000"
    proof -
      have "c_round (L2 * 57600) \<le> c_round (L1 * 57600)"
        using wr(3) that(1) by (intro c_round_mono) simp_all
      moreover have "c_round (L1 * 57600) \<le> 20736000"
        using c_round_nonneg_bounds(2) [of "L1 * 57600" 20736000] wr(1,2) by simp
      ultimately have "c_round (L1 * 57600) = 20736000"
        using that(2) by simp
      then have "snd (calc_latlon_16ths la1 L1) = 0"
        by (rule c1(6))
      moreover have "0 \<le> lon_units la lo"
        by (rule lon_units_range(1))
      ultimately have "snd (calc_latlon_16ths la1 L1) \<le> lon_units la lo"
        by simp
      then show ?thesis
        unfolding s s1 using u1 by (intro start_of_mono)
    qed
    have lon: "if L2 < L1 then L1 \<le> W \<or> W \<le> L2 else L1 \<le> W \<and> W \<le> L2"
      using inb False unfolding in_box_def L1_def L2_def W_def by simp
    show ?thesis
    proof (cases "L2 < L1")
      case True
      then have "L1 \<le> W \<or> W \<le> L2"
        using lon by simp
      then have "unat (corner_start la1 L1) \<le> unat (bs ! 0)
          \<or> unat (bs ! 0) \<le> unat (corner_start la2 L2)"
        using lower upper folded [OF True] by blast
      then show ?thesis
        using True by (auto simp: word_less_nat_alt)
    next
      case False
      then have n: "c_round (L2 * 57600) \<noteq> 20736000"
        using nofold unfolding L1_def L2_def by simp
      from False lon have "L1 \<le> W" "W \<le> L2"
        by simp_all
      then have "unat (corner_start la1 L1) \<le> unat (bs ! 0)"
        "unat (bs ! 0) \<le> unat (corner_start la2 L2)"
        using lower upper n by simp_all
      then show ?thesis
        using False by (auto simp: word_less_nat_alt)
    qed
  qed
  have lon: "la = - 90 \<or> la = 90 \<or>
      \<not> (if L2 < L1 then L2 < W \<and> W < L1 else W < L1 \<or> L2 < W)"
    using inb unfolding in_box_def L1_def L2_def W_def by (auto split: if_splits)
  show ?thesis
    unfolding bs_def [symmetric] DecoderWithBoundingBox_init_fields
      DecoderWithBoundingBox_decode_def Let_def dec
    unfolding L1_def [symmetric] L2_def [symmetric]
    using pass lat lon by (auto split: if_splits)
qed

lemma bounding_box_equivalence:
  assumes "- 90 \<le> la" "la \<le> 90" "la * 57600 \<in> \<int>" "lo * 57600 \<in> \<int>"
    and "- 90 \<le> la1" "la2 \<le> 90"
    and "wrap360 lo2 < wrap360 lo1 \<or> c_round (wrap360 lo2 * 57600) \<noteq> 20736000"
  shows "fst (DecoderWithBoundingBox_decode (DecoderWithBoundingBox_init la1 lo1 la2 lo2)
               (drop (length res) (snd (encode la lo res))) r)
         \<longleftrightarrow> in_box la1 lo1 la2 lo2 la lo"
  using bounding_box_sound [OF assms(1-4)] bounding_box_complete [OF assms] by blast

text \<open>
  The scenario of the specification: the box \<open>(-90, -60, 10, 50)\<close> accepts \<open>(-90, 0)\<close>,
  \<open>(-90, 300)\<close> and \<open>(0, 50)\<close>, and rejects \<open>(0, 51)\<close> and \<open>(0, 299)\<close>.
\<close>

lemma wrap360_eval:
  "wrap360 (- 60) = 300" "wrap360 50 = 50" "wrap360 0 = 0" "wrap360 300 = 300"
  "wrap360 51 = 51" "wrap360 299 = 299"
  by (simp_all add: wrap360_def)

lemma bounding_box_scenario:
  fixes r :: LatLongCoord
  defines "bb \<equiv> DecoderWithBoundingBox_init (- 90) (- 60) 10 50"
  shows "fst (DecoderWithBoundingBox_decode bb (snd (encode (- 90) 0 [])) r)"
    and "fst (DecoderWithBoundingBox_decode bb (snd (encode (- 90) 300 [])) r)"
    and "fst (DecoderWithBoundingBox_decode bb (snd (encode 0 50 [])) r)"
    and "\<not> fst (DecoderWithBoundingBox_decode bb (snd (encode 0 51 [])) r)"
    and "\<not> fst (DecoderWithBoundingBox_decode bb (snd (encode 0 299 [])) r)"
  unfolding bb_def
  using bounding_box_equivalence [of "- 90" 0 "- 90" 10 50 "- 60" "[]" r]
    bounding_box_equivalence [of "- 90" 300 "- 90" 10 50 "- 60" "[]" r]
    bounding_box_equivalence [of 0 50 "- 90" 10 50 "- 60" "[]" r]
    bounding_box_equivalence [of 0 51 "- 90" 10 50 "- 60" "[]" r]
    bounding_box_equivalence [of 0 299 "- 90" 10 50 "- 60" "[]" r]
  by (simp_all add: in_box_def wrap360_eval)

subsection \<open>Evaluations at concrete inputs\<close>

lemma encode_eval_1: "encode (- (1 / 512)) 0 [] = (True, [0, 89, 224, 204, 128, 0])"
  apply (simp add: encode_def Let_def fmod_def c_trunc_def c_round_def ceiling_minus)
  apply (simp add: DegreesMinutesSeconds_init_def Let_def c_div_def c_mod_def)
  apply (simp add: encode_bytes_append c_div_def c_mod_def)
  done

lemma decode_eval_1: "decode [0, 89, 224, 204, 128, 0] = \<lparr>lat = - (7 / 3600), lon = 0\<rparr>"
  by (simp add: decode_def Let_def)

lemma encode_eval_2: "encode 0 100 [] = (True, [71, 14, 0, 0, 0, 0])"
  apply (simp add: encode_def Let_def fmod_def c_trunc_def c_round_def ceiling_minus)
  apply (simp add: DegreesMinutesSeconds_init_def Let_def c_div_def c_mod_def)
  apply (simp add: encode_bytes_append c_div_def c_mod_def)
  done

lemma units_eval_1: "lat_units 0 = 5184000" "lon_units 0 100 = 5760000"
  "lat_units (- 90) = 0" "lat_units (- (899999999 / 10000000)) = 0"
  "lat_units (- (1 / 512)) = 5183888" "lon_units (- (1 / 512)) 0 = 0"
  by (simp_all add: lat_units_def lon_units_def wrap360_def c_round_def ceiling_minus)

lemma bb_eval_1:
  "DecoderWithBoundingBox_init (- 90) (- 60) 10 50 =
     \<lparr>lon1 = 300, lon2 = 50, min_lat = - 90, max_lat = 10, start1 = 212, start2 = 35,
      include_poles = True, discontinuous_longitude_range = True\<rparr>"
  apply (simp add: DecoderWithBoundingBox_init_def calc_latlon_16ths_def Let_def fmod_def
      c_trunc_def c_round_def ceiling_minus)
  apply (simp add: c_div_def)
  done

lemma bb_eval_2:
  "DecoderWithBoundingBox_init (- 10) 50 10 (359999999 / 1000000) =
     \<lparr>lon1 = 50, lon2 = 359999999 / 1000000, min_lat = - 10, max_lat = 10,
      start1 = 35, start2 = 0,
      include_poles = False, discontinuous_longitude_range = False\<rparr>"
  apply (simp add: DecoderWithBoundingBox_init_def calc_latlon_16ths_def Let_def fmod_def
      c_trunc_def c_round_def ceiling_minus)
  apply (simp add: c_div_def)
  done

section \<open>Properties\<close>

subsection \<open>Range failure\<close>

text \<open>
  C4. \<open>encode\<close> fails exactly when the latitude is below \<open>-90\<close> or above \<open>90\<close>, and
  a failing call returns the output string as it was given.
\<close>

theorem encode_fails_iff_out_of_range:
  "(fst (encode la lo res) = False \<longleftrightarrow> la < - 90 \<or> la > 90)
   \<and> (fst (encode la lo res) = False \<longrightarrow> snd (encode la lo res) = res)"
  by (simp add: encode_def Let_def)

theorem encode_fails_iff_out_of_range_witness:
  "encode 91 0 [1, 2, 3] = (False, [1, 2, 3]) \<and> encode (- 91) 0 [1, 2, 3] = (False, [1, 2, 3])"
  using encode_fails_iff_out_of_range [of 91 0 "[1, 2, 3]"]
    encode_fails_iff_out_of_range [of "- 91" 0 "[1, 2, 3]"]
  by (simp add: prod_eq_iff)

subsection \<open>Truncated encodings\<close>

text \<open>
  C6. For a six-byte buffer \<open>b\<close> and \<open>k\<close> in \<open>{2, 3, 4, 5}\<close>, decoding the first \<open>k\<close>
  bytes of \<open>b\<close> gives the same coordinate as decoding the six-byte buffer that keeps the
  first \<open>k\<close> bytes of \<open>b\<close> and has zero in the places \<open>k\<close> to \<open>5\<close>.
\<close>

theorem decode_truncated:
  assumes "length b = 6" and "k \<in> {2, 3, 4, 5}"
  shows "decode (take k b) = decode (take k b @ replicate (6 - k) 0)"
proof -
  obtain b0 b1 b2 b3 b4 b5 where b: "b = [b0, b1, b2, b3, b4, b5]"
    using assms(1) by (rule length_6_cases)
  from assms(2) consider "k = 2" | "k = 3" | "k = 4" | "k = 5" by auto
  then show ?thesis
  proof cases
    case 1 then show ?thesis by (simp add: b replicate_small decode_2)
  next
    case 2 then show ?thesis by (simp add: b replicate_small decode_3)
  next
    case 3 then show ?thesis by (simp add: b replicate_small decode_4)
  next
    case 4 then show ?thesis by (simp add: b replicate_small decode_5)
  qed
qed

theorem decode_truncated_witness:
  "length [71, 14, 153, 102, 85, 170 :: byte] = 6 \<and> (3::nat) \<in> {2, 3, 4, 5} \<and>
   decode [71, 14, 153] = decode [71, 14, 153, 0, 0, 0] \<and>
   decode [71, 14, 153] = \<lparr>lat = 3 / 5, lon = 503 / 5\<rparr>"
  using decode_truncated [of "[71, 14, 153, 102, 85, 170]" 3]
  by (simp add: replicate_small) (simp add: decode_def Let_def)

subsection \<open>Lower bounds of decoded coordinates\<close>

text \<open>
  C10. For every buffer of at least two bytes, whatever its contents, the decoded latitude
  is at least \<open>-90\<close> and the decoded longitude is at least \<open>0\<close>. The upper bounds
  \<open>90\<close> and \<open>360\<close> can be exceeded by buffers that no encoder produces.
\<close>

theorem decode_lower_bounds:
  "(\<forall>b. 2 \<le> length b \<longrightarrow> - 90 \<le> lat (decode b) \<and> 0 \<le> lon (decode b))
   \<and> (\<exists>b. 2 \<le> length b \<and> 90 < lat (decode b))
   \<and> (\<exists>b. 2 \<le> length b \<and> 360 < lon (decode b))"
proof (intro conjI allI impI)
  fix b :: "byte list"
  show "- 90 \<le> lat (decode b)"
    unfolding decode_def Let_def case_prod_beta by simp
  show "0 \<le> lon (decode b)"
    unfolding decode_def Let_def case_prod_beta by simp
next
  have "2 \<le> length [0, 180, 255, 255, 255, 255 :: byte]
        \<and> 90 < lat (decode [0, 180, 255, 255, 255, 255])"
    by (simp add: decode_def Let_def)
  then show "\<exists>b. 2 \<le> length b \<and> 90 < lat (decode b)" by blast
next
  have "2 \<le> length [255, 255 :: byte] \<and> 360 < lon (decode [255, 255])"
    by (simp add: decode_def Let_def)
  then show "\<exists>b. 2 \<le> length b \<and> 360 < lon (decode b)" by blast
qed

theorem decode_lower_bounds_witness:
  "2 \<le> length [255, 255, 255, 255, 255, 255 :: byte]
   \<and> - 90 \<le> lat (decode [255, 255, 255, 255, 255, 255])
   \<and> 0 \<le> lon (decode [255, 255, 255, 255, 255, 255])"
  using decode_lower_bounds [THEN conjunct1, rule_format,
      of "[255, 255, 255, 255, 255, 255]"]
  by simp

subsection \<open>Appending to the output string\<close>

text \<open>
  C7. A successful \<open>encode\<close> returns the given string followed by exactly six new bytes:
  the bytes already in the string are unchanged and the length grows by six.
\<close>

theorem encode_appends_six_bytes:
  assumes "fst (encode la lo res)"
  shows "\<exists>bs. length bs = 6 \<and> snd (encode la lo res) = res @ bs"
  using assms by (simp add: encode_def Let_def encode_bytes_append split: if_splits)

theorem encode_appends_six_bytes_witness:
  "fst (encode 10 96 [1, 2, 3]) \<and>
   (\<exists>bs. length bs = 6 \<and> snd (encode 10 96 [1, 2, 3]) = [1, 2, 3] @ bs)"
proof -
  have h: "fst (encode 10 96 [1, 2, 3])"
    by (simp add: encode_def Let_def)
  show ?thesis
    using h encode_appends_six_bytes [OF h] by simp
qed

subsection \<open>The two versions of the encoder\<close>

text \<open>
  C8. The earlier \<open>encode\<close>, which wraps the longitude only when the quantised latitude is
  not a pole, and the later one, which wraps it before the test for a pole, return the
  same boolean and the same string on every input.
\<close>

theorem encode_old_eq_encode:
  "encode_old la lo res = encode la lo res"
  by (simp add: encode_old_def encode_def Let_def)

subsection \<open>The out-parameter of the bounding-box decoder\<close>

text \<open>
  C9. When \<open>DecoderWithBoundingBox::decode\<close> returns false the out-parameter keeps the
  value it had; when it returns true the out-parameter is what the plain \<open>decode\<close>
  returns for the same buffer.
\<close>

theorem bounding_box_decode_result:
  "(fst (DecoderWithBoundingBox_decode bb v r) = False
      \<longrightarrow> snd (DecoderWithBoundingBox_decode bb v r) = r)
   \<and> (fst (DecoderWithBoundingBox_decode bb v r) = True
      \<longrightarrow> snd (DecoderWithBoundingBox_decode bb v r) = decode v)"
  by (simp add: DecoderWithBoundingBox_decode_def Let_def)

theorem bounding_box_decode_result_witness:
  "DecoderWithBoundingBox_decode (DecoderWithBoundingBox_init (- 90) (- 60) 10 50)
      [36, 105, 0, 0, 0, 0] \<lparr>lat = 7, lon = 7\<rparr> = (False, \<lparr>lat = 7, lon = 7\<rparr>)
   \<and> DecoderWithBoundingBox_decode (DecoderWithBoundingBox_init (- 90) (- 60) 10 50)
      [35, 180, 0, 0, 0, 0] \<lparr>lat = 7, lon = 7\<rparr> = (True, decode [35, 180, 0, 0, 0, 0])"
  using bounding_box_decode_result [of "DecoderWithBoundingBox_init (- 90) (- 60) 10 50"
      "[36, 105, 0, 0, 0, 0]" "\<lparr>lat = 7, lon = 7\<rparr>"]
    bounding_box_decode_result [of "DecoderWithBoundingBox_init (- 90) (- 60) 10 50"
      "[35, 180, 0, 0, 0, 0]" "\<lparr>lat = 7, lon = 7\<rparr>"]
  apply (simp add: bb_eval_1 prod_eq_iff)
  apply (simp add: DecoderWithBoundingBox_decode_def decode_def Let_def)
  done

subsection \<open>Round trip\<close>

text \<open>
  C2. The specification states that for every latitude in \<open>[-90, 90]\<close> the six bytes of
  \<open>encode\<close> decode to the latitude \<open>round (la * 57600) / 57600\<close> within \<open>1e-8\<close>. The
  code does not do so at \<open>la = - 1 / 512\<close>, \<open>lo = 0\<close>. There \<open>la * 57600\<close> is \<open>- 112.5\<close>,
  which \<open>round\<close> takes to \<open>- 113\<close>; the encoder rounds the shifted value
  \<open>(la + 90) * 57600 = 5183887.5\<close> instead, to \<open>5183888\<close>, writes the bytes
  \<open>0 89 224 204 128 0\<close>, and these decode to the latitude \<open>- 112 / 57600\<close>, one unit
  (\<open>1 / 57600\<close> of a degree) away. Every number in this computation is a double, so the
  evaluation does not depend on taking doubles as reals.
\<close>

theorem roundtrip_latitude_off_by_one_unit:
  "- 90 \<le> (- (1 / 512) :: real) \<and> (- (1 / 512) :: real) \<le> 90 \<and>
   encode (- (1 / 512)) 0 [] = (True, [0, 89, 224, 204, 128, 0]) \<and>
   decode [0, 89, 224, 204, 128, 0] = \<lparr>lat = - (112 / 57600), lon = 0\<rparr> \<and>
   c_round (- (1 / 512) * 57600) = - 113 \<and>
   \<not> \<bar>lat (decode (snd (encode (- (1 / 512)) 0 [])))
        - real_of_int (c_round (- (1 / 512) * 57600)) / 57600\<bar> \<le> 1 / 100000000"
  by (simp add: encode_eval_1 decode_eval_1 c_round_def ceiling_minus)

subsection \<open>Pole collapse\<close>

text \<open>
  C3. For every longitude, a latitude in \<open>[-90, 90]\<close> whose quantised value is a pole
  (\<open>lat_units la\<close> is \<open>0\<close> or \<open>10368000\<close>) is encoded to six bytes that decode to
  longitude \<open>0\<close> exactly, and to latitude \<open>-90\<close> or \<open>90\<close>.
\<close>

theorem pole_collapse:
  assumes "- 90 \<le> la" "la \<le> 90" "lat_units la = 0 \<or> lat_units la = 10368000"
  shows "fst (encode la lo res) \<and>
    lon (decode (drop (length res) (snd (encode la lo res)))) = 0 \<and>
    lat (decode (drop (length res) (snd (encode la lo res)))) =
      (if lat_units la = 0 then - 90 else 90)"
proof -
  have ok: "fst (encode la lo res)"
    by (simp add: encode_units [OF assms(1,2)])
  have l: "lon_units la lo = 0"
    using assms(3) by (simp add: lon_units_def)
  from assms(3) have "real_of_int (lat_units la) / 57600 - 90 =
      (if lat_units la = 0 then - 90 else 90)"
    by (rule disjE) simp_all
  then show ?thesis
    unfolding decode_encode [OF assms(1,2)] l using ok by simp
qed

theorem pole_collapse_witness:
  "- 90 \<le> (- 90 :: real) \<and> (- 90 :: real) \<le> 90 \<and> lat_units (- 90) = 0 \<and>
   lon (decode (snd (encode (- 90) 1 []))) = 0 \<and>
   lat (decode (snd (encode (- 90) 1 []))) = - 90 \<and>
   lat_units (- (899999999 / 10000000)) = 0 \<and>
   lon (decode (snd (encode (- (899999999 / 10000000)) 1 []))) = 0"
  using pole_collapse [of "- 90" 1 "[]"] pole_collapse [of "- (899999999 / 10000000)" 1 "[]"]
  by (simp add: units_eval_1)

subsection \<open>The degree prefix\<close>

text \<open>
  C5. After a successful \<open>encode\<close> the first two appended bytes, read as a big-endian
  16-bit number, are \<open>lat_degrees + lon_degrees * 181\<close>, where the two are the whole
  degrees of the quantised shifted latitude and of the quantised longitude; the number lies
  between \<open>0\<close> and \<open>65159\<close>, and the first byte is its quotient by \<open>256\<close>.
\<close>

theorem first_two_bytes:
  assumes "fst (encode la lo res)"
  shows "let bs = drop (length res) (snd (encode la lo res));
             lat_degrees = lat_units la div 57600;
             lon_degrees = lon_units la lo div 57600;
             dd = lat_degrees + lon_degrees * 181
         in uint (bs ! 0) * 256 + uint (bs ! 1) = dd \<and> 0 \<le> dd \<and> dd \<le> 65159
            \<and> uint (bs ! 0) = dd div 256"
proof -
  have r: "- 90 \<le> la" "la \<le> 90"
    using assms by (simp_all add: encode_def split: if_splits)
  obtain n where n: "lat_units la = int n"
    using lat_units_range(1) [OF r] nonneg_int_cases by blast
  obtain m where m: "lon_units la lo = int m"
    using lon_units_range(1) [of la lo] nonneg_int_cases by blast
  have le: "n \<le> 10368000" "m < 20736000"
    using lat_units_range(2) [OF r] lon_units_range(2) [of la lo] n m by simp_all
  define dd where "dd = n div 57600 + m div 57600 * 181"
  have d: "n div 57600 \<le> 180" "m div 57600 \<le> 359"
    using le by simp_all
  then have dd: "dd \<le> 65159"
    by (simp add: dd_def)
  then have dd': "dd < 65536"
    by simp
  have idd: "int (n div 57600) + int (m div 57600) * 181 = int dd"
    by (simp add: dd_def)
  define B0 :: byte where "B0 = word_of_int (drop_bit 8 (int dd mod 2 ^ 32))"
  define B1 :: byte where "B1 = word_of_int ((int dd mod 2 ^ 32) AND 0xff)"
  define bs where "bs = drop (length res) (snd (encode la lo res))"
  have "bs = encode_bytes (DegreesMinutesSeconds_init (int n))
               (DegreesMinutesSeconds_init (int m)) []"
    by (simp add: bs_def encode_units [OF r] n m)
  then have "\<exists>t. bs = B0 # B1 # t"
    unfolding DegreesMinutesSeconds_init_nat encode_bytes_append B0_def B1_def
    by (simp add: idd)
  then have b: "bs ! 0 = B0" "bs ! 1 = B1"
    by auto
  have u: "uint B0 = int (dd div 256)" "uint B1 = int (dd mod 256)"
    unfolding B0_def B1_def uint_nat unat_degrees [OF dd'] by (rule refl)+
  have "int (dd div 256 * 256 + dd mod 256) = int dd"
    by (simp only: div_mult_mod_eq)
  then have s: "int (dd div 256) * 256 + int (dd mod 256) = int dd"
    by (simp only: of_nat_add of_nat_mult of_nat_numeral)
  have i: "lat_units la div 57600 + lon_units la lo div 57600 * 181 = int dd"
    unfolding n m by (simp add: dd_def of_nat_div)
  have "uint (bs ! 0) * 256 + uint (bs ! 1) = int dd \<and> 0 \<le> int dd \<and> int dd \<le> 65159
            \<and> uint (bs ! 0) = int dd div 256"
    unfolding b u s using dd by (simp add: of_nat_div)
  then show ?thesis
    unfolding Let_def i bs_def .
qed

theorem first_two_bytes_witness:
  "fst (encode 0 100 []) \<and>
   uint (snd (encode 0 100 []) ! 0) * 256 + uint (snd (encode 0 100 []) ! 1) = 90 + 100 * 181 \<and>
   uint (snd (encode 0 100 []) ! 0) = 71"
proof -
  have h: "fst (encode 0 100 [])"
    by (simp add: encode_def Let_def)
  show ?thesis
    using h first_two_bytes [OF h] by (simp add: Let_def units_eval_1)
qed

subsection \<open>The bounding-box decoder against the direct range check\<close>

text \<open>
  C1. The specification states that the bounding-box decoder accepts an encoded grid point
  exactly when the direct range check \<open>in_box\<close> admits it. The code does not do so at the box
  \<open>(-10, 50, 10, 359.999999)\<close> and the point \<open>(0, 100)\<close>: the point lies in the box, and
  the decoder returns false without touching its out-parameter. The eastern longitude
  rounds to \<open>360\<close> degrees, which \<open>calc_latlon_16ths\<close> folds to \<open>0\<close>, so \<open>start2\<close> is
  \<open>0\<close> and the test on the first byte (\<open>71\<close> here) rejects the point. Away from that
  fold, for corner latitudes in \<open>[-90, 90]\<close> and in exact arithmetic, the decoder and the
  range check agree (\<open>bounding_box_equivalence\<close>).
\<close>

theorem bounding_box_rejects_point_in_box:
  "in_box (- 10) 50 10 (359999999 / 1000000) 0 100 \<and>
   (0 :: real) * 57600 \<in> \<int> \<and> (100 :: real) * 57600 \<in> \<int> \<and>
   encode 0 100 [] = (True, [71, 14, 0, 0, 0, 0]) \<and>
   decode [71, 14, 0, 0, 0, 0] = \<lparr>lat = 0, lon = 100\<rparr> \<and>
   DecoderWithBoundingBox_decode
     (DecoderWithBoundingBox_init (- 10) 50 10 (359999999 / 1000000))
     [71, 14, 0, 0, 0, 0] \<lparr>lat = 7, lon = 7\<rparr> = (False, \<lparr>lat = 7, lon = 7\<rparr>)"
  apply (simp add: encode_eval_2 bb_eval_2 in_box_def wrap360_def)
  apply (simp add: DecoderWithBoundingBox_decode_def decode_def Let_def)
  done

end
